theory Spec2Isabelle
  imports Main "HOL-Library.Word"
begin

section \<open>The GPU-process side: identifiers, registry, heap and proxies\<close>

text \<open>
  \<open>WebGPUIdentifier\<close> is an object identifier, a 64-bit value. A backing resource (a
  \<open>PAL::WebGPU\<close> object) is an external collaborator: the model names it by a reference and
  records every call the proxies make into it, in order.
\<close>

type_synonym WebGPUIdentifier = "64 word"

type_synonym backing_ref = nat

datatype error = AssertionFailure | DisengagedOptional | DuplicateIdentifier

text \<open>
  A descriptor as it arrives from the client embeds identifiers; the converted descriptor
  (the \<open>PAL::WebGPU\<close> one) holds the backing resources they resolve to.
\<close>

record TextureViewDescriptor =
  descriptor_label :: string
  descriptor_identifiers :: "WebGPUIdentifier list"

record PAL_TextureViewDescriptor =
  pal_label :: string
  pal_objects :: "backing_ref list"

datatype backing_call =
    Call_createView PAL_TextureViewDescriptor backing_ref
  | Call_destroy
  | Call_setLabel string
  | Call_setBindGroup "32 word" backing_ref "32 word list option"

datatype proxy_kind = Texture | TextureView | BindGroupLayout | RenderPassEncoder

text \<open>
  The fields of a proxy (\<open>RemoteTexture\<close>, \<open>RemoteBindGroupLayout\<close>, ...): \<open>m_backing\<close> and
  \<open>m_identifier\<close>. The members \<open>m_objectRegistry\<close> and \<open>m_objectHeap\<close> are references to the one
  registry and the one heap of the state below.
\<close>

record proxy =
  m_kind :: proxy_kind
  m_backing :: backing_ref
  m_identifier :: WebGPUIdentifier

text \<open>
  The state of the GPU process that the proxies touch. \<open>constructed\<close> is a history variable:
  the identifiers of all proxies whose constructor has run, oldest first. \<open>releasedUnused\<close>
  holds the identifiers the client has released while their creation was not yet processed,
  and \<open>releaseAcknowledged\<close> the identifiers whose creation was reclaimed, oldest first.
\<close>

record gpu_state =
  objectRegistry :: "WebGPUIdentifier \<rightharpoonup> backing_ref"
  objectHeap :: "WebGPUIdentifier \<rightharpoonup> proxy"
  backing_calls :: "(backing_ref \<times> backing_call) list"
  next_backing :: backing_ref
  constructed :: "WebGPUIdentifier list"
  releasedUnused :: "WebGPUIdentifier list"
  releaseAcknowledged :: "WebGPUIdentifier list"

definition initial_state :: gpu_state where
  "initial_state =
     \<lparr>objectRegistry = Map.empty, objectHeap = Map.empty, backing_calls = [],
      next_backing = 0, constructed = [], releasedUnused = [], releaseAcknowledged = []\<rparr>"

subsection \<open>ObjectRegistry and ObjectHeap\<close>

text \<open>
  Modelled from the spec: \<open>WebGPU::ObjectRegistry::addObject\<close> (the class is not among the
  sources). It registers a resolver entry and fails when the identifier is already present,
  which is a fatal logic error.
\<close>

definition ObjectRegistry_addObject ::
  "WebGPUIdentifier \<Rightarrow> backing_ref \<Rightarrow> gpu_state \<Rightarrow> error + gpu_state" where
  "ObjectRegistry_addObject identifier backing s =
     (if objectRegistry s identifier \<noteq> None then Inl DuplicateIdentifier
      else Inr (s\<lparr>objectRegistry := (objectRegistry s)(identifier \<mapsto> backing)\<rparr>))"

text \<open>
  Modelled from the spec: \<open>WebGPU::ObjectRegistry::removeObject\<close>. It removes the entry;
  with an absent identifier it does nothing.
\<close>

definition ObjectRegistry_removeObject :: "WebGPUIdentifier \<Rightarrow> gpu_state \<Rightarrow> gpu_state" where
  "ObjectRegistry_removeObject identifier s =
     s\<lparr>objectRegistry := (objectRegistry s)(identifier := None)\<rparr>"

text \<open>
  Modelled from the spec: \<open>WebGPU::ObjectRegistry::convertFromBacking\<close>. Every identifier
  embedded in the descriptor is resolved to its backing resource; the result is empty when
  one of them is absent from the registry.
\<close>

definition convertFromBacking ::
  "(WebGPUIdentifier \<rightharpoonup> backing_ref) \<Rightarrow> TextureViewDescriptor \<Rightarrow> PAL_TextureViewDescriptor option" where
  "convertFromBacking registry descriptor =
     (case those (map registry (descriptor_identifiers descriptor)) of
        None \<Rightarrow> None
      | Some objects \<Rightarrow> Some \<lparr>pal_label = descriptor_label descriptor, pal_objects = objects\<rparr>)"

text \<open>
  Modelled from the spec: \<open>WebGPU::ObjectHeap::addObject\<close>. It inserts the proxy under the
  proxy's own identifier, which must not be present yet.
\<close>

definition ObjectHeap_addObject :: "proxy \<Rightarrow> gpu_state \<Rightarrow> error + gpu_state" where
  "ObjectHeap_addObject p s =
     (if objectHeap s (m_identifier p) \<noteq> None then Inl DuplicateIdentifier
      else Inr (s\<lparr>objectHeap := (objectHeap s)(m_identifier p \<mapsto> p)\<rparr>))"

subsection \<open>Calls into the backing resources\<close>

text \<open>
  \<open>m_backing->destroy()\<close> and \<open>m_backing->setLabel(label)\<close> are recorded; what the graphics
  API does with them is outside the proxy layer. \<open>m_backing->createView(descriptor)\<close> also
  returns a new backing resource, the texture view.
\<close>

definition backing_call :: "backing_ref \<Rightarrow> backing_call \<Rightarrow> gpu_state \<Rightarrow> gpu_state" where
  "backing_call b c s = s\<lparr>backing_calls := backing_calls s @ [(b, c)]\<rparr>"

definition PAL_Texture_createView ::
  "backing_ref \<Rightarrow> PAL_TextureViewDescriptor \<Rightarrow> gpu_state \<Rightarrow> backing_ref \<times> gpu_state" where
  "PAL_Texture_createView b descriptor s =
     (let textureView = next_backing s
      in (textureView,
          backing_call b (Call_createView descriptor textureView)
            (s\<lparr>next_backing := Suc (next_backing s)\<rparr>)))"

subsection \<open>RemoteTexture and RemoteBindGroupLayout\<close>

text \<open>
  The constructor \<open>RemoteTexture::RemoteTexture(texture, objectRegistry, objectHeap, identifier)\<close>
  initialises the members and calls \<open>m_objectRegistry.addObject(m_identifier, m_backing)\<close>.
  \<open>RemoteBindGroupLayout\<close> has the same constructor. The constructor of \<open>RemoteTextureView\<close> is
  not among the sources; it is modelled from the spec, which gives every proxy kind this shape.
\<close>

definition proxy_constructor ::
  "proxy_kind \<Rightarrow> backing_ref \<Rightarrow> WebGPUIdentifier \<Rightarrow> gpu_state \<Rightarrow> error + (proxy \<times> gpu_state)" where
  "proxy_constructor k backing identifier s =
     (let this = \<lparr>m_kind = k, m_backing = backing, m_identifier = identifier\<rparr>
      in case ObjectRegistry_addObject (m_identifier this) (m_backing this) s of
           Inl e \<Rightarrow> Inl e
         | Inr s' \<Rightarrow> Inr (this, s'\<lparr>constructed := constructed s' @ [identifier]\<rparr>))"

definition RemoteTexture_constructor ::
  "backing_ref \<Rightarrow> WebGPUIdentifier \<Rightarrow> gpu_state \<Rightarrow> error + (proxy \<times> gpu_state)" where
  "RemoteTexture_constructor texture identifier s = proxy_constructor Texture texture identifier s"

definition RemoteBindGroupLayout_constructor ::
  "backing_ref \<Rightarrow> WebGPUIdentifier \<Rightarrow> gpu_state \<Rightarrow> error + (proxy \<times> gpu_state)" where
  "RemoteBindGroupLayout_constructor bindGroupLayout identifier s =
     proxy_constructor BindGroupLayout bindGroupLayout identifier s"

text \<open>
  Modelled from the spec: \<open>RemoteTextureView::create\<close>, which allocates the proxy with the
  common constructor.
\<close>

definition RemoteTextureView_create ::
  "backing_ref \<Rightarrow> WebGPUIdentifier \<Rightarrow> gpu_state \<Rightarrow> error + (proxy \<times> gpu_state)" where
  "RemoteTextureView_create textureView identifier s =
     proxy_constructor TextureView textureView identifier s"

text \<open>
  The destructors \<open>RemoteTexture::~RemoteTexture\<close> and
  \<open>RemoteBindGroupLayout::~RemoteBindGroupLayout\<close>: \<open>m_objectRegistry.removeObject(m_identifier)\<close>.
\<close>

definition proxy_destructor :: "proxy \<Rightarrow> gpu_state \<Rightarrow> gpu_state" where
  "proxy_destructor this s = ObjectRegistry_removeObject (m_identifier this) s"

text \<open>
  Modelled from the spec: \<open>WebGPU::ObjectHeap::removeObject\<close>. It removes the heap entry and
  so drops the owning reference: the proxy's destructor runs. An absent identifier is a no-op.
\<close>

definition ObjectHeap_removeObject :: "WebGPUIdentifier \<Rightarrow> gpu_state \<Rightarrow> gpu_state" where
  "ObjectHeap_removeObject identifier s =
     (case objectHeap s identifier of
        None \<Rightarrow> s
      | Some p \<Rightarrow> proxy_destructor p (s\<lparr>objectHeap := (objectHeap s)(identifier := None)\<rparr>))"

text \<open>
  The end of \<open>RemoteTexture::createView\<close>, once the descriptor is converted:
  \<open>m_backing->createView(*convertedDescriptor)\<close>, \<open>RemoteTextureView::create(...)\<close> and
  \<open>m_objectHeap.addObject(remoteTextureView)\<close>.
\<close>

definition RemoteTexture_createView_converted ::
  "proxy \<Rightarrow> PAL_TextureViewDescriptor \<Rightarrow> WebGPUIdentifier \<Rightarrow> gpu_state \<Rightarrow> error + gpu_state" where
  "RemoteTexture_createView_converted this convertedDescriptor identifier s =
     (let (textureView, s1) = PAL_Texture_createView (m_backing this) convertedDescriptor s
      in case RemoteTextureView_create textureView identifier s1 of
           Inl e \<Rightarrow> Inl e
         | Inr (remoteTextureView, s2) \<Rightarrow> ObjectHeap_addObject remoteTextureView s2)"

text \<open>
  \<open>RemoteTexture::createView(descriptor, identifier)\<close>. \<open>ASSERT\<close> stops the process in a build
  with assertions (\<open>assertions = True\<close>) and is nothing otherwise. With a descriptor that does
  not convert, the code returns after \<open>ASSERT(resultDescriptor)\<close>. With no descriptor at all,
  \<open>convertedDescriptor\<close> stays empty and the code reaches \<open>ASSERT(convertedDescriptor)\<close> and
  then \<open>*convertedDescriptor\<close> on the empty optional.
\<close>

definition RemoteTexture_createView ::
  "bool \<Rightarrow> proxy \<Rightarrow> TextureViewDescriptor option \<Rightarrow> WebGPUIdentifier \<Rightarrow> gpu_state
     \<Rightarrow> error + gpu_state" where
  "RemoteTexture_createView assertions this descriptor identifier s =
     (case descriptor of
        Some d \<Rightarrow>
          (case convertFromBacking (objectRegistry s) d of
             None \<Rightarrow> if assertions then Inl AssertionFailure else Inr s
           | Some convertedDescriptor \<Rightarrow>
               RemoteTexture_createView_converted this convertedDescriptor identifier s)
      | None \<Rightarrow> Inl (if assertions then AssertionFailure else DisengagedOptional))"

text \<open>\<open>RemoteTexture::destroy\<close>: \<open>m_backing->destroy()\<close>.\<close>

definition RemoteTexture_destroy :: "proxy \<Rightarrow> gpu_state \<Rightarrow> gpu_state" where
  "RemoteTexture_destroy this s = backing_call (m_backing this) Call_destroy s"

text \<open>\<open>RemoteTexture::setLabel\<close>: \<open>m_backing->setLabel(WTFMove(label))\<close>.\<close>

definition RemoteTexture_setLabel :: "proxy \<Rightarrow> string \<Rightarrow> gpu_state \<Rightarrow> gpu_state" where
  "RemoteTexture_setLabel this label s = backing_call (m_backing this) (Call_setLabel label) s"

text \<open>\<open>RemoteBindGroupLayout::setLabel\<close>: \<open>m_backing->setLabel(WTFMove(label))\<close>.\<close>

definition RemoteBindGroupLayout_setLabel :: "proxy \<Rightarrow> string \<Rightarrow> gpu_state \<Rightarrow> gpu_state" where
  "RemoteBindGroupLayout_setLabel this label s =
     backing_call (m_backing this) (Call_setLabel label) s"

text \<open>
  Modelled from the spec: \<open>RemoteRenderPassEncoder::setBindGroup(index, bindGroup, dynamicOffsets)\<close>.
  The header declares it; its body is not among the sources. It is a simple forwarding
  operation: the embedded identifier is resolved through the registry, and the operation is
  abandoned when the identifier is absent.
\<close>

definition RemoteRenderPassEncoder_setBindGroup ::
  "proxy \<Rightarrow> 32 word \<Rightarrow> WebGPUIdentifier \<Rightarrow> 32 word list option \<Rightarrow> gpu_state \<Rightarrow> gpu_state" where
  "RemoteRenderPassEncoder_setBindGroup this index bindGroup dynamicOffsets s =
     (case objectRegistry s bindGroup of
        None \<Rightarrow> s
      | Some convertedBindGroup \<Rightarrow>
          backing_call (m_backing this) (Call_setBindGroup index convertedBindGroup dynamicOffsets) s)"

text \<open>
  Modelled from the spec: the release message a client sends when it drops its last reference
  to an identifier. When the creation has been processed, the proxy is in the heap and is
  removed from it. When the creation has not been processed yet, the server recognises the
  release: it notes the identifier, so that the creation is reclaimed when it arrives.
\<close>

definition recognizeRelease :: "WebGPUIdentifier \<Rightarrow> gpu_state \<Rightarrow> gpu_state" where
  "recognizeRelease identifier s =
     (case objectHeap s identifier of
        Some p \<Rightarrow> ObjectHeap_removeObject identifier s
      | None \<Rightarrow> s\<lparr>releasedUnused := List.insert identifier (releasedUnused s)\<rparr>)"

text \<open>
  Modelled from the spec: \<open>ObjectHeap::releaseUnused\<close>, the reclamation path for a creation
  message that names an identifier the client has already released. The creation is consumed
  and its would-be resource discarded: the note of the release is used up, the reclamation is
  acknowledged, and no backing resource is made and no proxy constructed.
\<close>

definition ObjectHeap_releaseUnused :: "WebGPUIdentifier \<Rightarrow> gpu_state \<Rightarrow> gpu_state" where
  "ObjectHeap_releaseUnused identifier s =
     s\<lparr>releasedUnused := removeAll identifier (releasedUnused s),
       releaseAcknowledged := releaseAcknowledged s @ [identifier]\<rparr>"

subsection \<open>Messages\<close>

text \<open>
  Modelled from the spec: creation of a resource of some kind under a fresh identifier. The
  backing resource is made, the proxy is constructed around it (which registers it) and the
  proxy is inserted into the heap: the last two steps of \<open>RemoteTexture::createView\<close>.
\<close>

definition createObject :: "proxy_kind \<Rightarrow> WebGPUIdentifier \<Rightarrow> gpu_state \<Rightarrow> error + gpu_state" where
  "createObject k identifier s =
     (let backing = next_backing s; s1 = s\<lparr>next_backing := Suc (next_backing s)\<rparr>
      in case proxy_constructor k backing identifier s1 of
           Inl e \<Rightarrow> Inl e
         | Inr (p, s2) \<Rightarrow> ObjectHeap_addObject p s2)"

text \<open>
  The wire messages: creation, the operations of \<open>RemoteTexture\<close>, \<open>RemoteBindGroupLayout\<close> and
  \<open>RemoteRenderPassEncoder\<close> modelled above (the first identifier is the destination), removal
  of a proxy from the heap, and the release of an identifier by a client that does not wait
  for its creation.
\<close>

datatype message =
    Create proxy_kind WebGPUIdentifier
  | Texture_CreateView WebGPUIdentifier "TextureViewDescriptor option" WebGPUIdentifier
  | Texture_Destroy WebGPUIdentifier
  | Texture_SetLabel WebGPUIdentifier string
  | BindGroupLayout_SetLabel WebGPUIdentifier string
  | RenderPassEncoder_SetBindGroup WebGPUIdentifier "32 word" WebGPUIdentifier "32 word list option"
  | RemoveObject WebGPUIdentifier
  | ReleaseUnused WebGPUIdentifier

text \<open>
  Modelled from the spec: the routing of a message to the proxy of its destination identifier
  (the generated \<open>didReceiveStreamMessage\<close> is not among the sources). A message whose
  destination is not in the heap, or is a proxy of another kind, is dropped. The end-point
  captures a creation message whose new identifier was released before the message is
  processed, and hands it to \<open>releaseUnused\<close> instead of creating anything.
\<close>

definition receiver :: "proxy_kind \<Rightarrow> WebGPUIdentifier \<Rightarrow> gpu_state \<Rightarrow> proxy option" where
  "receiver k destination s =
     (case objectHeap s destination of
        None \<Rightarrow> None
      | Some p \<Rightarrow> if m_kind p = k then Some p else None)"

fun didReceiveMessage :: "bool \<Rightarrow> message \<Rightarrow> gpu_state \<Rightarrow> error + gpu_state" where
  "didReceiveMessage assertions (Create k identifier) s =
     (if identifier \<in> set (releasedUnused s) then Inr (ObjectHeap_releaseUnused identifier s)
      else createObject k identifier s)"
| "didReceiveMessage assertions (Texture_CreateView destination descriptor identifier) s =
     (if identifier \<in> set (releasedUnused s) then Inr (ObjectHeap_releaseUnused identifier s)
      else case receiver Texture destination s of
             None \<Rightarrow> Inr s
           | Some this \<Rightarrow> RemoteTexture_createView assertions this descriptor identifier s)"
| "didReceiveMessage assertions (Texture_Destroy destination) s =
     (case receiver Texture destination s of
        None \<Rightarrow> Inr s
      | Some this \<Rightarrow> Inr (RemoteTexture_destroy this s))"
| "didReceiveMessage assertions (Texture_SetLabel destination label) s =
     (case receiver Texture destination s of
        None \<Rightarrow> Inr s
      | Some this \<Rightarrow> Inr (RemoteTexture_setLabel this label s))"
| "didReceiveMessage assertions (BindGroupLayout_SetLabel destination label) s =
     (case receiver BindGroupLayout destination s of
        None \<Rightarrow> Inr s
      | Some this \<Rightarrow> Inr (RemoteBindGroupLayout_setLabel this label s))"
| "didReceiveMessage assertions (RenderPassEncoder_SetBindGroup destination index bindGroup offsets) s =
     (case receiver RenderPassEncoder destination s of
        None \<Rightarrow> Inr s
      | Some this \<Rightarrow> Inr (RemoteRenderPassEncoder_setBindGroup this index bindGroup offsets s))"
| "didReceiveMessage assertions (RemoveObject identifier) s = Inr (ObjectHeap_removeObject identifier s)"
| "didReceiveMessage assertions (ReleaseUnused identifier) s = Inr (recognizeRelease identifier s)"

text \<open>
  The messages of a connection are processed one after the other; a fatal error ends the run.
\<close>

fun run :: "bool \<Rightarrow> message list \<Rightarrow> gpu_state \<Rightarrow> error + gpu_state" where
  "run assertions [] s = Inr s"
| "run assertions (m # ms) s =
     (case didReceiveMessage assertions m s of
        Inl e \<Rightarrow> Inl e
      | Inr s' \<Rightarrow> run assertions ms s')"

text \<open>
  The state is coherent when the registry holds, for exactly the identifiers of the heap, the
  backing resource of the proxy the heap holds, every proxy sits under its own identifier,
  and the constructor of every proxy in the heap has run.
\<close>

definition coherent :: "gpu_state \<Rightarrow> bool" where
  "coherent s =
     (\<forall>i. objectRegistry s i = map_option m_backing (objectHeap s i)
        \<and> (\<forall>p. objectHeap s i = Some p \<longrightarrow> m_identifier p = i \<and> i \<in> set (constructed s)))"

section \<open>The client side: the properties of a remote video frame\<close>

text \<open>
  The field types of \<open>RemoteVideoFrameProxy::Properties\<close>. Their declarations are not among the
  sources: a reference is an identifier with a version, a media time is a value, a scale and
  flags, a size is a width and a height. The field \<open>size\<close> is \<open>size_field\<close> here.
\<close>

record RemoteVideoFrameReference =
  reference_identifier :: "64 word"
  reference_version :: "64 word"

record MediaTime =
  timeValue :: "64 word"
  timeScale :: "32 word"
  timeFlags :: "8 word"

datatype VideoRotation = Rotation_None | UpsideDown | Right | Left

record IntSize =
  width :: "32 word"
  height :: "32 word"

record Properties =
  reference :: RemoteVideoFrameReference
  presentationTime :: MediaTime
  isMirrored :: bool
  rotation :: VideoRotation
  size_field :: IntSize
  pixelFormat :: "32 word"

text \<open>
  Modelled from the spec: the typed argument stream (\<open>IPC::Encoder\<close> and \<open>IPC::Decoder\<close> are
  not among the sources). \<open>encoder << x\<close> appends the value; \<open>decoder >> x\<close> reads a value of the
  type of \<open>x\<close> from the front, and marks the decoder invalid when there is none.
\<close>

datatype wire_value =
    W_Reference RemoteVideoFrameReference
  | W_MediaTime MediaTime
  | W_bool bool
  | W_VideoRotation VideoRotation
  | W_IntSize IntSize
  | W_uint32 "32 word"

type_synonym Encoder = "wire_value list"

record Decoder =
  buffer :: "wire_value list"
  isValid :: bool

definition decode_MediaTime :: "Decoder \<Rightarrow> MediaTime option \<times> Decoder" where
  "decode_MediaTime d =
     (if \<not> isValid d then (None, d)
      else case buffer d of
             W_MediaTime v # rest \<Rightarrow> (Some v, d\<lparr>buffer := rest\<rparr>)
           | _ \<Rightarrow> (None, d\<lparr>isValid := False\<rparr>))"

definition decode_bool :: "Decoder \<Rightarrow> bool option \<times> Decoder" where
  "decode_bool d =
     (if \<not> isValid d then (None, d)
      else case buffer d of
             W_bool v # rest \<Rightarrow> (Some v, d\<lparr>buffer := rest\<rparr>)
           | _ \<Rightarrow> (None, d\<lparr>isValid := False\<rparr>))"

definition decode_VideoRotation :: "Decoder \<Rightarrow> VideoRotation option \<times> Decoder" where
  "decode_VideoRotation d =
     (if \<not> isValid d then (None, d)
      else case buffer d of
             W_VideoRotation v # rest \<Rightarrow> (Some v, d\<lparr>buffer := rest\<rparr>)
           | _ \<Rightarrow> (None, d\<lparr>isValid := False\<rparr>))"

definition decode_IntSize :: "Decoder \<Rightarrow> IntSize option \<times> Decoder" where
  "decode_IntSize d =
     (if \<not> isValid d then (None, d)
      else case buffer d of
             W_IntSize v # rest \<Rightarrow> (Some v, d\<lparr>buffer := rest\<rparr>)
           | _ \<Rightarrow> (None, d\<lparr>isValid := False\<rparr>))"

definition decode_uint32 :: "Decoder \<Rightarrow> 32 word option \<times> Decoder" where
  "decode_uint32 d =
     (if \<not> isValid d then (None, d)
      else case buffer d of
             W_uint32 v # rest \<Rightarrow> (Some v, d\<lparr>buffer := rest\<rparr>)
           | _ \<Rightarrow> (None, d\<lparr>isValid := False\<rparr>))"

text \<open>
  \<open>RemoteVideoFrameProxy::Properties::encode\<close>:
  \<open>encoder << presentationTime << isMirrored << rotation << size << pixelFormat\<close>.
\<close>

definition Properties_encode :: "Properties \<Rightarrow> Encoder \<Rightarrow> Encoder" where
  "Properties_encode p encoder =
     encoder @ [W_MediaTime (presentationTime p), W_bool (isMirrored p),
                W_VideoRotation (rotation p), W_IntSize (size_field p), W_uint32 (pixelFormat p)]"

text \<open>
  \<open>RemoteVideoFrameProxy::Properties::decode\<close>. The six locals are empty optionals; five of
  them are read from the decoder, \<open>reference\<close> is not. When the decoder is still valid the code
  builds the result from \<open>*reference\<close>, \<open>*presentationTime\<close>, ...: the dereference of an empty
  optional is the error \<open>DisengagedOptional\<close>.
\<close>

definition Properties_decode :: "Decoder \<Rightarrow> error + Properties option" where
  "Properties_decode decoder =
     (let reference = (None :: RemoteVideoFrameReference option);
          (presentationTime, d1) = decode_MediaTime decoder;
          (isMirrored, d2) = decode_bool d1;
          (videoRotation, d3) = decode_VideoRotation d2;
          (size, d4) = decode_IntSize d3;
          (pixelFormat, d5) = decode_uint32 d4
      in if \<not> isValid d5 then Inr None
         else case (reference, presentationTime, isMirrored, videoRotation, size, pixelFormat) of
                (Some r, Some t, Some m, Some v, Some z, Some f) \<Rightarrow>
                  Inr (Some \<lparr>reference = r, presentationTime = t, isMirrored = m, rotation = v,
                             size_field = z, pixelFormat = f\<rparr>)
              | _ \<Rightarrow> Inl DisengagedOptional)"

section \<open>Error scopes of a device\<close>

text \<open>
  Modelled from the spec: \<open>RemoteDevice::pushErrorScope(filter)\<close> and
  \<open>RemoteDevice::popErrorScope(completion)\<close>. The header declares them; their bodies and the
  device they forward to are not among the sources. Scopes nest: a push opens a scope, a
  generated error is captured by the innermost open scope whose filter accepts it, a scope
  keeps the first error it captures, and a pop closes the innermost scope and reports what it
  captured. A pop with no open scope reports a protocol error. Which errors a filter accepts
  is the parameter \<open>accepts\<close>; filters and errors are type parameters.
\<close>

record ('f, 'e) error_scope =
  scope_filter :: 'f
  captured :: "'e option"

datatype 'e pop_result = Reported "'e option" | ProtocolError

definition pushErrorScope :: "'f \<Rightarrow> ('f, 'e) error_scope list \<Rightarrow> ('f, 'e) error_scope list" where
  "pushErrorScope errorFilter scopes = \<lparr>scope_filter = errorFilter, captured = None\<rparr> # scopes"

fun generateError ::
  "('f \<Rightarrow> 'e \<Rightarrow> bool) \<Rightarrow> 'e \<Rightarrow> ('f, 'e) error_scope list \<Rightarrow> ('f, 'e) error_scope list" where
  "generateError accepts e [] = []"
| "generateError accepts e (scope # scopes) =
     (if accepts (scope_filter scope) e
      then (if captured scope = None then scope\<lparr>captured := Some e\<rparr> else scope) # scopes
      else scope # generateError accepts e scopes)"

definition popErrorScope ::
  "('f, 'e) error_scope list \<Rightarrow> 'e pop_result \<times> ('f, 'e) error_scope list" where
  "popErrorScope scopes =
     (case scopes of
        [] \<Rightarrow> (ProtocolError, [])
      | scope # rest \<Rightarrow> (Reported (captured scope), rest))"

datatype ('f, 'e) device_op = PushErrorScope 'f | GenerateError 'e | PopErrorScope

text \<open>
  A sequence of operations on a device, from a given stack of open scopes; the result is the
  list of what the pops reported, in order, and the stack left.
\<close>

fun run_device ::
  "('f \<Rightarrow> 'e \<Rightarrow> bool) \<Rightarrow> ('f, 'e) device_op list \<Rightarrow> ('f, 'e) error_scope list
     \<Rightarrow> 'e pop_result list \<times> ('f, 'e) error_scope list" where
  "run_device accepts [] scopes = ([], scopes)"
| "run_device accepts (PushErrorScope f # ops) scopes =
     run_device accepts ops (pushErrorScope f scopes)"
| "run_device accepts (GenerateError e # ops) scopes =
     run_device accepts ops (generateError accepts e scopes)"
| "run_device accepts (PopErrorScope # ops) scopes =
     (let (r, scopes') = popErrorScope scopes;
          (rs, scopes'') = run_device accepts ops scopes'
      in (r # rs, scopes''))"

text \<open>
  \<open>N\<close> pushes followed by \<open>N\<close> pops: each push comes with the errors generated after it and
  before the next push (or the first pop), each pop with the errors generated after it and
  before the next pop.
\<close>

definition push_phase :: "('f \<times> 'e list) list \<Rightarrow> ('f, 'e) device_op list" where
  "push_phase pushes = concat (map (\<lambda>(f, es). PushErrorScope f # map GenerateError es) pushes)"

definition pop_phase :: "'e list list \<Rightarrow> ('f, 'e) device_op list" where
  "pop_phase pops = concat (map (\<lambda>es. PopErrorScope # map GenerateError es) pops)"

section \<open>Asynchronous completion\<close>

text \<open>
  Modelled from the spec: the operations of \<open>RemoteDevice\<close> that take a completion handler
  (\<open>createComputePipelineAsync\<close>, \<open>createRenderPipelineAsync\<close>, \<open>popErrorScope\<close>); the header
  declares them, their bodies are not among the sources. An operation whose descriptor does
  not resolve, or that arrives after teardown, calls its handler at once with failure.
  Otherwise the handler is kept while the work is in flight, and is called when the work
  completes. Teardown of the connection or of the device calls every handler still in flight
  with failure. \<open>invocations\<close> records the calls of handlers, oldest first, each with the
  outcome it stands for; the handlers of the two pipeline operations are declared without an
  argument, so there the outcome is what the call means, not a value passed to the handler.
\<close>

type_synonym handler = nat

datatype outcome = Completed | Failed

datatype async_operation = CreateComputePipelineAsync | CreateRenderPipelineAsync | PopErrorScopeAsync

datatype async_event =
    Begin async_operation bool handler
  | WorkCompleted handler
  | Teardown

record async_state =
  in_flight :: "handler list"
  invocations :: "(handler \<times> outcome) list"
  torn_down :: bool

definition initial_async :: async_state where
  "initial_async = \<lparr>in_flight = [], invocations = [], torn_down = False\<rparr>"

definition invoke :: "handler \<Rightarrow> outcome \<Rightarrow> async_state \<Rightarrow> async_state" where
  "invoke h out s = s\<lparr>invocations := invocations s @ [(h, out)]\<rparr>"

fun async_step :: "async_event \<Rightarrow> async_state \<Rightarrow> async_state" where
  "async_step (Begin operation resolves h) s =
     (if torn_down s \<or> (operation \<noteq> PopErrorScopeAsync \<and> \<not> resolves) then invoke h Failed s
      else s\<lparr>in_flight := in_flight s @ [h]\<rparr>)"
| "async_step (WorkCompleted h) s =
     (if h \<in> set (in_flight s)
      then invoke h Completed (s\<lparr>in_flight := removeAll h (in_flight s)\<rparr>)
      else s)"
| "async_step Teardown s =
     (s\<lparr>in_flight := [], torn_down := True\<rparr>)
     \<lparr>invocations := invocations s @ map (\<lambda>h. (h, Failed)) (in_flight s)\<rparr>"

definition run_async :: "async_event list \<Rightarrow> async_state \<Rightarrow> async_state" where
  "run_async events s = fold async_step events s"

text \<open>The handlers supplied by the operations of a sequence, and how often one was called.\<close>

fun supplied :: "async_event list \<Rightarrow> handler list" where
  "supplied [] = []"
| "supplied (Begin operation resolves h # events) = h # supplied events"
| "supplied (e # events) = supplied events"

definition times_invoked :: "handler \<Rightarrow> async_state \<Rightarrow> nat" where
  "times_invoked h s = count_list (map fst (invocations s)) h"

section \<open>Properties\<close>

lemma backing_call_fields [simp]:
  "objectRegistry (backing_call b c s) = objectRegistry s"
  "objectHeap (backing_call b c s) = objectHeap s"
  "constructed (backing_call b c s) = constructed s"
  "releasedUnused (backing_call b c s) = releasedUnused s"
  "releaseAcknowledged (backing_call b c s) = releaseAcknowledged s"
  "next_backing (backing_call b c s) = next_backing s"
  "backing_calls (backing_call b c s) = backing_calls s @ [(b, c)]"
  by (simp_all add: backing_call_def)

text \<open>
  C10. The simple forwarding operations \<open>RemoteTexture::destroy\<close>, \<open>RemoteTexture::setLabel\<close>
  and \<open>RemoteBindGroupLayout::setLabel\<close> make one call, into the backing resource of the proxy
  they run on, and leave the registry and the heap as they were; the heap holds the proxies,
  so the identifier field of every proxy is unchanged as well.
\<close>

theorem forwarding_frame:
  "objectRegistry (RemoteTexture_destroy this s) = objectRegistry s
   \<and> objectHeap (RemoteTexture_destroy this s) = objectHeap s
   \<and> backing_calls (RemoteTexture_destroy this s) = backing_calls s @ [(m_backing this, Call_destroy)]
   \<and> objectRegistry (RemoteTexture_setLabel this l s) = objectRegistry s
   \<and> objectHeap (RemoteTexture_setLabel this l s) = objectHeap s
   \<and> backing_calls (RemoteTexture_setLabel this l s)
       = backing_calls s @ [(m_backing this, Call_setLabel l)]
   \<and> objectRegistry (RemoteBindGroupLayout_setLabel this l s) = objectRegistry s
   \<and> objectHeap (RemoteBindGroupLayout_setLabel this l s) = objectHeap s
   \<and> backing_calls (RemoteBindGroupLayout_setLabel this l s)
       = backing_calls s @ [(m_backing this, Call_setLabel l)]"
  by (simp add: RemoteTexture_destroy_def RemoteTexture_setLabel_def
      RemoteBindGroupLayout_setLabel_def)

subsection \<open>Coherence of registry and heap\<close>

lemma coherent_initial: "coherent initial_state"
  by (simp add: coherent_def initial_state_def)

lemma proxy_constructor_Inr:
  "proxy_constructor k b i s = Inr (p, s') \<Longrightarrow>
     objectRegistry s i = None
     \<and> p = \<lparr>m_kind = k, m_backing = b, m_identifier = i\<rparr>
     \<and> s' = s\<lparr>objectRegistry := (objectRegistry s)(i \<mapsto> b), constructed := constructed s @ [i]\<rparr>"
  by (auto simp: proxy_constructor_def ObjectRegistry_addObject_def Let_def split: if_splits)

lemma ObjectHeap_addObject_Inr:
  "ObjectHeap_addObject p s = Inr s' \<Longrightarrow>
     objectHeap s (m_identifier p) = None \<and> s' = s\<lparr>objectHeap := (objectHeap s)(m_identifier p \<mapsto> p)\<rparr>"
  by (auto simp: ObjectHeap_addObject_def split: if_splits)

lemma coherent_install:
  assumes "coherent s" and "proxy_constructor k b i s1 = Inr (p, s2)"
    and "ObjectHeap_addObject p s2 = Inr s'"
    and "objectRegistry s1 = objectRegistry s" and "objectHeap s1 = objectHeap s"
    and "constructed s1 = constructed s"
  shows "coherent s'"
  using assms
  by (auto simp: coherent_def split: if_splits dest!: proxy_constructor_Inr ObjectHeap_addObject_Inr)

lemma coherent_createObject: "coherent s \<Longrightarrow> createObject k i s = Inr s' \<Longrightarrow> coherent s'"
  by (auto simp: createObject_def Let_def split: sum.splits intro: coherent_install [where ?s1.0 = "s\<lparr>next_backing := Suc (next_backing s)\<rparr>"])

lemma coherent_createView_converted:
  "coherent s \<Longrightarrow> RemoteTexture_createView_converted this cd i s = Inr s' \<Longrightarrow> coherent s'"
  by (auto simp: RemoteTexture_createView_converted_def PAL_Texture_createView_def
      RemoteTextureView_create_def Let_def
      split: sum.splits prod.splits
      intro: coherent_install [where s = s])

lemma coherent_createView:
  "coherent s \<Longrightarrow> RemoteTexture_createView a this d i s = Inr s' \<Longrightarrow> coherent s'"
  by (auto simp: RemoteTexture_createView_def split: option.splits if_splits
      dest: coherent_createView_converted)

lemma coherent_backing_call: "coherent (backing_call b c s) = coherent s"
  by (simp add: coherent_def)

lemma coherent_removeObject: "coherent s \<Longrightarrow> coherent (ObjectHeap_removeObject i s)"
  by (auto simp: coherent_def ObjectHeap_removeObject_def proxy_destructor_def
      ObjectRegistry_removeObject_def split: option.splits)

lemma coherent_releaseUnused: "coherent (ObjectHeap_releaseUnused i s) = coherent s"
  by (simp add: coherent_def ObjectHeap_releaseUnused_def)

lemma coherent_recognizeRelease: "coherent s \<Longrightarrow> coherent (recognizeRelease i s)"
proof (cases "objectHeap s i")
  case None
  assume "coherent s"
  with None show ?thesis
    by (simp add: recognizeRelease_def coherent_def)
next
  case (Some p)
  assume "coherent s"
  then have "coherent (ObjectHeap_removeObject i s)"
    by (rule coherent_removeObject)
  with Some show ?thesis
    by (simp add: recognizeRelease_def)
qed

lemma coherent_step: "coherent s \<Longrightarrow> didReceiveMessage a m s = Inr s' \<Longrightarrow> coherent s'"
  by (cases m)
    (auto simp: coherent_backing_call RemoteTexture_destroy_def RemoteTexture_setLabel_def
      RemoteBindGroupLayout_setLabel_def RemoteRenderPassEncoder_setBindGroup_def
      coherent_releaseUnused
      split: option.splits if_splits
      dest: coherent_createObject coherent_createView coherent_removeObject
        coherent_recognizeRelease)

lemma coherent_run: "coherent s \<Longrightarrow> run a ms s = Inr s' \<Longrightarrow> coherent s'"
  by (induction ms arbitrary: s) (auto split: sum.splits dest: coherent_step)


lemmas gpu_defs =
  initial_state_def createObject_def proxy_constructor_def ObjectRegistry_addObject_def
  ObjectHeap_addObject_def receiver_def RemoteTexture_createView_def
  RemoteTexture_createView_converted_def convertFromBacking_def PAL_Texture_createView_def
  RemoteTextureView_create_def backing_call_def ObjectHeap_removeObject_def
  proxy_destructor_def ObjectRegistry_removeObject_def RemoteTexture_destroy_def
  RemoteTexture_setLabel_def RemoteBindGroupLayout_setLabel_def
  RemoteRenderPassEncoder_setBindGroup_def ObjectHeap_releaseUnused_def recognizeRelease_def
  RemoteTexture_constructor_def RemoteBindGroupLayout_constructor_def Let_def

text \<open>
  C1. Registry/heap coherence. In every state reached from the initial state by processing
  messages (a run that ends in a fatal error reaches no state), an identifier has an entry in
  the registry exactly when the heap holds a proxy for it, under that identifier. The
  constructors of \<open>RemoteTexture\<close> and \<open>RemoteBindGroupLayout\<close> add the identifier of the
  proxy to the registry, and the destructor removes it. The states are those between two
  messages: inside \<open>RemoteTexture::createView\<close> the view is registered by its constructor one
  step before \<open>m_objectHeap.addObject\<close> inserts it.
\<close>

theorem registry_heap_coherence:
  "(run assertions ms initial_state = Inr s \<longrightarrow>
      (objectRegistry s identifier \<noteq> None)
        = (\<exists>p. objectHeap s identifier = Some p \<and> m_identifier p = identifier))
   \<and> (RemoteTexture_constructor texture identifier s0 = Inr (this, s1) \<longrightarrow>
        m_identifier this = identifier \<and> objectRegistry s1 identifier = Some texture)
   \<and> (RemoteBindGroupLayout_constructor layout identifier s0 = Inr (this', s1') \<longrightarrow>
        m_identifier this' = identifier \<and> objectRegistry s1' identifier = Some layout)
   \<and> objectRegistry (proxy_destructor p s2) (m_identifier p) = None"
proof -
  have "coherent s" if "run assertions ms initial_state = Inr s"
    using coherent_run [OF coherent_initial that] .
  then have "run assertions ms initial_state = Inr s \<longrightarrow>
      (objectRegistry s identifier \<noteq> None)
        = (\<exists>p. objectHeap s identifier = Some p \<and> m_identifier p = identifier)"
    by (auto simp: coherent_def)
  moreover have "RemoteTexture_constructor texture identifier s0 = Inr (this, s1) \<longrightarrow>
        m_identifier this = identifier \<and> objectRegistry s1 identifier = Some texture"
    by (auto simp: RemoteTexture_constructor_def dest!: proxy_constructor_Inr)
  moreover have "RemoteBindGroupLayout_constructor layout identifier s0 = Inr (this', s1') \<longrightarrow>
        m_identifier this' = identifier \<and> objectRegistry s1' identifier = Some layout"
    by (auto simp: RemoteBindGroupLayout_constructor_def dest!: proxy_constructor_Inr)
  moreover have "objectRegistry (proxy_destructor p s2) (m_identifier p) = None"
    by (simp add: proxy_destructor_def ObjectRegistry_removeObject_def)
  ultimately show ?thesis by blast
qed


theorem registry_heap_coherence_witness:
  "run False [Create Texture 1,
        Texture_CreateView 1 (Some \<lparr>descriptor_label = ''view'', descriptor_identifiers = [1]\<rparr>) 2,
        RemoveObject 1] initial_state
     = Inr (projr (run False [Create Texture 1,
        Texture_CreateView 1 (Some \<lparr>descriptor_label = ''view'', descriptor_identifiers = [1]\<rparr>) 2,
        RemoveObject 1] initial_state))
   \<and> objectRegistry (projr (run False [Create Texture 1,
        Texture_CreateView 1 (Some \<lparr>descriptor_label = ''view'', descriptor_identifiers = [1]\<rparr>) 2,
        RemoveObject 1] initial_state)) 2 \<noteq> None
   \<and> (\<exists>p. objectHeap (projr (run False [Create Texture 1,
        Texture_CreateView 1 (Some \<lparr>descriptor_label = ''view'', descriptor_identifiers = [1]\<rparr>) 2,
        RemoveObject 1] initial_state)) 2 = Some p \<and> m_identifier p = 2)
   \<and> RemoteTexture_constructor 0 1 initial_state
       = Inr (projr (RemoteTexture_constructor 0 1 initial_state))
   \<and> objectRegistry (snd (projr (RemoteTexture_constructor 0 1 initial_state))) 1 = Some 0
   \<and> RemoteBindGroupLayout_constructor 0 1 initial_state
       = Inr (projr (RemoteBindGroupLayout_constructor 0 1 initial_state))
   \<and> objectRegistry (snd (projr (RemoteBindGroupLayout_constructor 0 1 initial_state))) 1 = Some 0"
proof -
  let ?ms = "[Create Texture 1,
        Texture_CreateView 1 (Some \<lparr>descriptor_label = ''view'', descriptor_identifiers = [1]\<rparr>) 2,
        RemoveObject 1]"
  let ?s = "projr (run False ?ms initial_state)"
  let ?c = "projr (RemoteTexture_constructor 0 1 initial_state)"
  let ?b = "projr (RemoteBindGroupLayout_constructor 0 1 initial_state)"
  have r: "run False ?ms initial_state = Inr ?s"
    by (simp add: gpu_defs)
  have c: "RemoteTexture_constructor 0 1 initial_state = Inr (fst ?c, snd ?c)"
    by (simp add: gpu_defs)
  have b: "RemoteBindGroupLayout_constructor 0 1 initial_state = Inr (fst ?b, snd ?b)"
    by (simp add: gpu_defs)
  have h: "objectRegistry ?s 2 \<noteq> None"
    by (simp add: gpu_defs)
  from registry_heap_coherence [of False ?ms ?s 2]
    registry_heap_coherence [of _ _ _ 1 0 initial_state "fst ?c" "snd ?c" 0 "fst ?b" "snd ?b"]
    r c b h
  show ?thesis by simp
qed




text \<open>
  C3, as stated, fails: after a texture is created under identifier 1 and the \<open>destroy\<close>
  operation is processed for it, \<open>m_backing->destroy()\<close> has been called, and identifier 1 still
  resolves in the heap and in the registry.
\<close>

theorem destroy_keeps_entries_counterexample:
  "run False [Create Texture 1, Texture_Destroy 1] initial_state
     = Inr (projr (run False [Create Texture 1, Texture_Destroy 1] initial_state))
   \<and> backing_calls (projr (run False [Create Texture 1, Texture_Destroy 1] initial_state))
       = [(0, Call_destroy)]
   \<and> objectHeap (projr (run False [Create Texture 1, Texture_Destroy 1] initial_state)) 1
       = Some \<lparr>m_kind = Texture, m_backing = 0, m_identifier = 1\<rparr>
   \<and> objectRegistry (projr (run False [Create Texture 1, Texture_Destroy 1] initial_state)) 1
       = Some 0"
  by (simp add: gpu_defs)

lemma removeObject_own_entries:
  "objectHeap s i = Some p \<Longrightarrow> m_identifier p = i \<Longrightarrow>
     objectHeap (ObjectHeap_removeObject i s) i = None
     \<and> objectRegistry (ObjectHeap_removeObject i s) i = None"
  by (simp add: ObjectHeap_removeObject_def proxy_destructor_def ObjectRegistry_removeObject_def)

lemma removeObject_other_entries:
  "coherent s \<Longrightarrow> j \<noteq> i \<Longrightarrow>
     objectHeap (ObjectHeap_removeObject i s) j = objectHeap s j
     \<and> objectRegistry (ObjectHeap_removeObject i s) j = objectRegistry s j"
  by (auto simp: coherent_def ObjectHeap_removeObject_def proxy_destructor_def
      ObjectRegistry_removeObject_def split: option.splits)

lemma removeObject_backing_calls:
  "backing_calls (ObjectHeap_removeObject i s) = backing_calls s"
  by (simp add: ObjectHeap_removeObject_def proxy_destructor_def ObjectRegistry_removeObject_def
      split: option.splits)

text \<open>
  C3, amended. \<open>RemoteTexture::destroy\<close> only forwards: it makes the one call
  \<open>m_backing->destroy()\<close> into the backing texture of the proxy, and the whole heap and the
  whole registry stay as they were, the entries of the proxy among them. The entries go when
  the heap removes the proxy: \<open>ObjectHeap::removeObject\<close> drops it, its destructor removes the
  identifier from the registry, and the backing texture is not called.
\<close>

theorem destroy_forwards_removeObject_removes:
  "objectHeap s identifier = Some this \<Longrightarrow> m_identifier this = identifier \<Longrightarrow>
     backing_calls (RemoteTexture_destroy this s) = backing_calls s @ [(m_backing this, Call_destroy)]
     \<and> objectHeap (RemoteTexture_destroy this s) = objectHeap s
     \<and> objectRegistry (RemoteTexture_destroy this s) = objectRegistry s
     \<and> objectHeap (RemoteTexture_destroy this s) identifier = Some this
     \<and> objectHeap (ObjectHeap_removeObject identifier s) identifier = None
     \<and> objectRegistry (ObjectHeap_removeObject identifier s) identifier = None
     \<and> backing_calls (ObjectHeap_removeObject identifier s) = backing_calls s"
  by (simp add: RemoteTexture_destroy_def removeObject_own_entries removeObject_backing_calls)

theorem destroy_forwards_removeObject_removes_witness:
  "objectHeap (projr (run False [Create Texture 1] initial_state)) 1 = Some \<lparr>m_kind = Texture, m_backing = 0, m_identifier = 1\<rparr>
   \<and> m_identifier \<lparr>m_kind = Texture, m_backing = 0, m_identifier = 1\<rparr> = (1 :: 64 word)
   \<and> backing_calls (projr (run False [Create Texture 1] initial_state)) = []
   \<and> backing_calls (RemoteTexture_destroy \<lparr>m_kind = Texture, m_backing = 0, m_identifier = 1\<rparr> (projr (run False [Create Texture 1] initial_state)))
       = [(0, Call_destroy)]
   \<and> objectRegistry (RemoteTexture_destroy \<lparr>m_kind = Texture, m_backing = 0, m_identifier = 1\<rparr>
         (projr (run False [Create Texture 1] initial_state))) 1 = Some 0
   \<and> objectHeap (ObjectHeap_removeObject 1 (projr (run False [Create Texture 1] initial_state))) 1
       = None
   \<and> objectRegistry (ObjectHeap_removeObject 1 (projr (run False [Create Texture 1] initial_state))) 1
       = None
   \<and> backing_calls (ObjectHeap_removeObject 1 (projr (run False [Create Texture 1] initial_state)))
       = []"
proof -
  let ?s = "projr (run False [Create Texture 1] initial_state)"
  let ?t = "\<lparr>m_kind = Texture, m_backing = 0, m_identifier = 1 :: 64 word\<rparr>"
  have a: "objectHeap ?s 1 = Some ?t"
    by (simp add: gpu_defs)
  have b: "objectRegistry ?s 1 = Some 0"
    by (simp add: gpu_defs)
  have c: "backing_calls ?s = []"
    by (simp add: gpu_defs)
  from destroy_forwards_removeObject_removes [of ?s 1 ?t] a b c
  show ?thesis by simp
qed






lemma createView_converted_result:
  assumes "RemoteTexture_createView_converted this cd V s = Inr s1"
  shows "objectRegistry s V = None \<and> objectHeap s V = None
         \<and> objectHeap s1 V \<noteq> None \<and> objectRegistry s1 V \<noteq> None"
  using assms
  by (auto simp: RemoteTexture_createView_converted_def PAL_Texture_createView_def
      RemoteTextureView_create_def Let_def split: sum.splits prod.splits
      dest!: proxy_constructor_Inr ObjectHeap_addObject_Inr)

text \<open>
  C8. Parent destruction does not disturb children. In a reachable state with a texture proxy
  under \<open>T\<close>, let \<open>createView\<close> with a descriptor that converts create the view \<open>V\<close>. Then \<open>V\<close>
  has a heap entry and a registry entry; removing \<open>T\<close> from the heap (which runs the destructor
  of \<open>T\<close>) removes the entries of \<open>T\<close> and leaves every other identifier, \<open>V\<close> among them, as
  it was; and \<open>V\<close> can be removed afterwards, which removes its entries.
\<close>

theorem child_survives_parent:
  assumes "run assertions ms initial_state = Inr s"
    and "receiver Texture T s = Some t"
    and "convertFromBacking (objectRegistry s) descriptor \<noteq> None"
    and "RemoteTexture_createView assertions t (Some descriptor) V s = Inr s1"
  shows "objectHeap s1 V \<noteq> None \<and> objectRegistry s1 V \<noteq> None
     \<and> objectHeap (ObjectHeap_removeObject T s1) V = objectHeap s1 V
     \<and> objectRegistry (ObjectHeap_removeObject T s1) V = objectRegistry s1 V
     \<and> objectHeap (ObjectHeap_removeObject T s1) T = None
     \<and> objectRegistry (ObjectHeap_removeObject T s1) T = None
     \<and> (\<forall>i. i \<noteq> T \<longrightarrow>
            objectHeap (ObjectHeap_removeObject T s1) i = objectHeap s1 i
            \<and> objectRegistry (ObjectHeap_removeObject T s1) i = objectRegistry s1 i)
     \<and> objectHeap (ObjectHeap_removeObject V (ObjectHeap_removeObject T s1)) V = None
     \<and> objectRegistry (ObjectHeap_removeObject V (ObjectHeap_removeObject T s1)) V = None"
proof -
  have coh: "coherent s"
    using coherent_run [OF coherent_initial assms(1)] .
  have coh1: "coherent s1"
    using coherent_createView [OF coh assms(4)] .
  obtain cd where cd: "RemoteTexture_createView_converted t cd V s = Inr s1"
    using assms(3,4) by (auto simp: RemoteTexture_createView_def)
  note res = createView_converted_result [OF cd]
  have T: "objectHeap s T = Some t"
    using assms(2) by (auto simp: receiver_def split: option.splits if_splits)
  with res have neq: "V \<noteq> T" by auto
  have coh2: "coherent (ObjectHeap_removeObject T s1)"
    using coh1 by (rule coherent_removeObject)
  have other: "\<forall>i. i \<noteq> T \<longrightarrow>
            objectHeap (ObjectHeap_removeObject T s1) i = objectHeap s1 i
            \<and> objectRegistry (ObjectHeap_removeObject T s1) i = objectRegistry s1 i"
    using removeObject_other_entries [OF coh1] by blast
  have gone: "objectHeap (ObjectHeap_removeObject i s') i = None
      \<and> objectRegistry (ObjectHeap_removeObject i s') i = None" if "coherent s'" for i s'
    using that by (auto simp: coherent_def ObjectHeap_removeObject_def proxy_destructor_def
        ObjectRegistry_removeObject_def split: option.splits)
  show ?thesis
    using res other neq gone [OF coh1, of T] gone [OF coh2, of V] by simp
qed

theorem child_survives_parent_witness:
  "run False [Create Texture 1] initial_state
     = Inr (projr (run False [Create Texture 1] initial_state))
   \<and> receiver Texture 1 (projr (run False [Create Texture 1] initial_state))
       = Some \<lparr>m_kind = Texture, m_backing = 0, m_identifier = 1\<rparr>
   \<and> convertFromBacking (objectRegistry (projr (run False [Create Texture 1] initial_state)))
        \<lparr>descriptor_label = ''view'', descriptor_identifiers = [1]\<rparr> \<noteq> None
   \<and> RemoteTexture_createView False \<lparr>m_kind = Texture, m_backing = 0, m_identifier = 1\<rparr>
        (Some \<lparr>descriptor_label = ''view'', descriptor_identifiers = [1]\<rparr>) 2
        (projr (run False [Create Texture 1] initial_state))
       = Inr (projr (run False [Create Texture 1,
            Texture_CreateView 1 (Some \<lparr>descriptor_label = ''view'', descriptor_identifiers = [1]\<rparr>) 2]
            initial_state))
   \<and> objectHeap (ObjectHeap_removeObject 1 (projr (run False [Create Texture 1,
            Texture_CreateView 1 (Some \<lparr>descriptor_label = ''view'', descriptor_identifiers = [1]\<rparr>) 2]
            initial_state))) 2
       = Some \<lparr>m_kind = TextureView, m_backing = 1, m_identifier = 2\<rparr>
   \<and> objectRegistry (ObjectHeap_removeObject 1 (projr (run False [Create Texture 1,
            Texture_CreateView 1 (Some \<lparr>descriptor_label = ''view'', descriptor_identifiers = [1]\<rparr>) 2]
            initial_state))) 2
       = Some 1"
proof -
  let ?s = "projr (run False [Create Texture 1] initial_state)"
  let ?t = "\<lparr>m_kind = Texture, m_backing = 0, m_identifier = 1 :: 64 word\<rparr>"
  let ?d = "\<lparr>descriptor_label = ''view'', descriptor_identifiers = [1 :: 64 word]\<rparr>"
  let ?s1 = "projr (run False [Create Texture 1, Texture_CreateView 1 (Some ?d) 2] initial_state)"
  have a: "run False [Create Texture 1] initial_state = Inr ?s"
    by (simp add: gpu_defs)
  have b: "receiver Texture 1 ?s = Some ?t"
    by (simp add: gpu_defs)
  have c: "convertFromBacking (objectRegistry ?s) ?d \<noteq> None"
    by (simp add: gpu_defs)
  have d: "RemoteTexture_createView False ?t (Some ?d) 2 ?s = Inr ?s1"
    by (simp add: gpu_defs)
  have e: "objectHeap ?s1 2 = Some \<lparr>m_kind = TextureView, m_backing = 1, m_identifier = 2\<rparr>"
    by (simp add: gpu_defs)
  have f: "objectRegistry ?s1 2 = Some 1"
    by (simp add: gpu_defs)
  from child_survives_parent [OF a b c d] a b c d e f show ?thesis by simp
qed

subsection \<open>Serialization of the video frame properties\<close>

lemmas decode_defs = decode_MediaTime_def decode_bool_def decode_VideoRotation_def
  decode_IntSize_def decode_uint32_def

text \<open>
  C4. The round trip of \<open>Properties\<close> does not hold in the code. \<open>encode\<close> writes five fields
  and not \<open>reference\<close>; \<open>decode\<close> of what \<open>encode\<close> wrote reads the five fields, finds the
  decoder valid and dereferences the optional \<open>reference\<close> that it never filled. For every
  \<open>p\<close> the result is that error, never \<open>p\<close>.
\<close>

theorem decode_encode_loses_reference:
  "Properties_decode \<lparr>buffer = Properties_encode p [], isValid = True\<rparr> = Inl DisengagedOptional
   \<and> W_Reference (reference p) \<notin> set (Properties_encode p [])"
  by (simp add: Properties_decode_def Properties_encode_def decode_defs)


theorem decode_encode_loses_reference_witness:
  "Properties_decode \<lparr>buffer = Properties_encode
      \<lparr>reference = \<lparr>reference_identifier = 7, reference_version = 1\<rparr>,
        presentationTime = \<lparr>timeValue = 100, timeScale = 30, timeFlags = 1\<rparr>,
        isMirrored = False, rotation = Rotation_None,
        size_field = \<lparr>width = 640, height = 480\<rparr>, pixelFormat = 875704422\<rparr> [],
      isValid = True\<rparr>
   = Inl DisengagedOptional"
  using decode_encode_loses_reference
    [of "\<lparr>reference = \<lparr>reference_identifier = 7, reference_version = 1\<rparr>,
        presentationTime = \<lparr>timeValue = 100, timeScale = 30, timeFlags = 1\<rparr>,
        isMirrored = False, rotation = Rotation_None,
        size_field = \<lparr>width = 640, height = 480\<rparr>, pixelFormat = 875704422\<rparr>"]
  by simp

subsection \<open>Error scopes\<close>

lemma length_generateError [simp]: "length (generateError accepts e scopes) = length scopes"
  by (induction scopes) auto

lemma generateError_bounded:
  "list_all2 (\<lambda>scope S. \<forall>x. captured scope = Some x \<longrightarrow> x \<in> S) scopes Ss \<Longrightarrow>
   list_all2 (\<lambda>scope S. \<forall>x. captured scope = Some x \<longrightarrow> x \<in> S)
     (generateError accepts e scopes) (map (insert e) Ss)"
proof (induction scopes arbitrary: Ss)
  case Nil
  then show ?case by simp
next
  case (Cons scope scopes)
  then obtain S Ss' where Ss: "Ss = S # Ss'"
    by (cases Ss) auto
  with Cons.prems have rest: "list_all2 (\<lambda>scope S. \<forall>x. captured scope = Some x \<longrightarrow> x \<in> S) scopes Ss'"
    and hd: "\<forall>x. captured scope = Some x \<longrightarrow> x \<in> S"
    by auto
  show ?case
  proof (cases "accepts (scope_filter scope) e")
    case True
    have "list_all2 (\<lambda>scope S. \<forall>x. captured scope = Some x \<longrightarrow> x \<in> S) scopes (map (insert e) Ss')"
      using rest by (auto simp: list_all2_conv_all_nth)
    with True hd Ss show ?thesis by auto
  next
    case False
    with Cons.IH [OF rest] hd Ss show ?thesis by auto
  qed
qed

lemma length_fold_generateError [simp]:
  "length (fold (generateError accepts) es scopes) = length scopes"
  by (induction es arbitrary: scopes) auto

lemma fold_generateError_bounded:
  "list_all2 (\<lambda>scope S. \<forall>x. captured scope = Some x \<longrightarrow> x \<in> S) scopes Ss \<Longrightarrow>
   list_all2 (\<lambda>scope S. \<forall>x. captured scope = Some x \<longrightarrow> x \<in> S)
     (fold (generateError accepts) es scopes) (map (\<lambda>S. S \<union> set es) Ss)"
proof (induction es arbitrary: scopes Ss)
  case Nil
  then show ?case by simp
next
  case (Cons e es)
  have "map (\<lambda>S. S \<union> set es) (map (insert e) Ss) = map (\<lambda>S. S \<union> set (e # es)) Ss"
    by simp
  with Cons.IH [OF generateError_bounded [OF Cons.prems, of accepts e]]
  have "list_all2 (\<lambda>scope S. \<forall>x. captured scope = Some x \<longrightarrow> x \<in> S)
     (fold (generateError accepts) es (generateError accepts e scopes))
     (map (\<lambda>S. S \<union> set (e # es)) Ss)"
    by (simp only:)
  then show ?case by (simp only: fold_simps)
qed

lemma run_device_errors:
  "run_device accepts (map GenerateError es @ ops) scopes
     = run_device accepts ops (fold (generateError accepts) es scopes)"
  by (induction es arbitrary: scopes) auto

lemma run_device_append:
  "run_device accepts (ops1 @ ops2) scopes =
     (let (rs1, scopes1) = run_device accepts ops1 scopes;
          (rs2, scopes2) = run_device accepts ops2 scopes1
      in (rs1 @ rs2, scopes2))"
  by (induction accepts ops1 scopes rule: run_device.induct)
    (auto simp: Let_def split: prod.splits)


lemma run_device_append_proj:
  "run_device accepts (ops1 @ ops2) scopes =
     (fst (run_device accepts ops1 scopes)
        @ fst (run_device accepts ops2 (snd (run_device accepts ops1 scopes))),
      snd (run_device accepts ops2 (snd (run_device accepts ops1 scopes))))"
  by (simp add: run_device_append split_beta)

lemma push_phase_Cons:
  "push_phase ((f, es) # pushes) = PushErrorScope f # map GenerateError es @ push_phase pushes"
  by (simp add: push_phase_def)

lemma pop_phase_Cons:
  "pop_phase (es # pops) = PopErrorScope # map GenerateError es @ pop_phase pops"
  by (simp add: pop_phase_def)

lemma push_phase_results: "fst (run_device accepts (push_phase pushes) scopes) = []"
proof (induction pushes arbitrary: scopes)
  case Nil
  then show ?case by (simp add: push_phase_def)
next
  case (Cons p pushes)
  obtain f es where p: "p = (f, es)" by (cases p)
  show ?case
    by (simp add: p push_phase_Cons run_device_errors Cons.IH)
qed

lemma push_phase_length:
  "length (snd (run_device accepts (push_phase pushes) scopes)) = length pushes + length scopes"
proof (induction pushes arbitrary: scopes)
  case Nil
  then show ?case by (simp add: push_phase_def)
next
  case (Cons p pushes)
  obtain f es where p: "p = (f, es)" by (cases p)
  show ?case
    by (simp add: p push_phase_Cons run_device_errors Cons.IH pushErrorScope_def)
qed

lemma suffix_sets_Cons:
  "map (\<lambda>i. set (concat (map snd (drop i (p # ps))))) (rev [0..<Suc (length ps)])
     = map (\<lambda>i. set (concat (map snd (drop i ps)))) (rev [0..<length ps])
       @ [set (snd p) \<union> set (concat (map snd ps))]"
proof -
  have "[0..<Suc (length ps)] = 0 # map Suc [0..<length ps]"
    by (simp add: upt_conv_Cons map_Suc_upt del: upt_Suc)
  then show ?thesis
    by (simp add: rev_map comp_def del: upt_Suc)
qed

lemma push_phase_bounded:
  "list_all2 (\<lambda>scope S. \<forall>x. captured scope = Some x \<longrightarrow> x \<in> S) scopes Ss \<Longrightarrow>
   list_all2 (\<lambda>scope S. \<forall>x. captured scope = Some x \<longrightarrow> x \<in> S)
     (snd (run_device accepts (push_phase pushes) scopes))
     (map (\<lambda>i. set (concat (map snd (drop i pushes)))) (rev [0..<length pushes])
      @ map (\<lambda>S. S \<union> set (concat (map snd pushes))) Ss)"
proof (induction pushes arbitrary: scopes Ss)
  case Nil
  then show ?case by (simp add: push_phase_def)
next
  case (Cons p pushes)
  obtain f es where p: "p = (f, es)" by (cases p)
  have "list_all2 (\<lambda>scope S. \<forall>x. captured scope = Some x \<longrightarrow> x \<in> S)
      (pushErrorScope f scopes) ({} # Ss)"
    using Cons.prems by (simp add: pushErrorScope_def)
  from Cons.IH [OF fold_generateError_bounded [OF this, of accepts es]]
  have "list_all2 (\<lambda>scope S. \<forall>x. captured scope = Some x \<longrightarrow> x \<in> S)
      (snd (run_device accepts (push_phase (p # pushes)) scopes))
      (map (\<lambda>i. set (concat (map snd (drop i pushes)))) (rev [0..<length pushes])
       @ map (\<lambda>S. S \<union> set (concat (map snd pushes))) (map (\<lambda>S. S \<union> set es) ({} # Ss)))"
    by (simp add: p push_phase_Cons run_device_errors)
  moreover have "map (\<lambda>S. S \<union> set (concat (map snd pushes))) (map (\<lambda>S. S \<union> set es) ({} # Ss))
      = (set es \<union> set (concat (map snd pushes)))
        # map (\<lambda>S. S \<union> set (concat (map snd (p # pushes)))) Ss"
    by (simp add: p Un_assoc)
  ultimately show ?case
    by (simp only: suffix_sets_Cons length_Cons p snd_conv append_assoc append_Cons append_Nil)
qed


lemma pop_phase_bounded:
  assumes "list_all2 (\<lambda>scope S. \<forall>x. captured scope = Some x \<longrightarrow> x \<in> S) scopes Ss"
    and "length pops \<le> length scopes"
  shows "length (fst (run_device accepts (pop_phase pops) scopes)) = length pops
     \<and> length (snd (run_device accepts (pop_phase pops) scopes)) = length scopes - length pops
     \<and> (\<forall>k < length pops. \<exists>r. fst (run_device accepts (pop_phase pops) scopes) ! k = Reported r
            \<and> (\<forall>x. r = Some x \<longrightarrow> x \<in> Ss ! k \<union> set (concat (take k pops))))"
  using assms
proof (induction pops arbitrary: scopes Ss)
  case Nil
  then show ?case by (simp add: pop_phase_def)
next
  case (Cons es pops)
  from Cons.prems obtain scope scopes' where scopes: "scopes = scope # scopes'"
    by (cases scopes) auto
  with Cons.prems obtain S Ss' where Ss: "Ss = S # Ss'"
    by (cases Ss) auto
  from Cons.prems scopes Ss
  have hd: "\<forall>x. captured scope = Some x \<longrightarrow> x \<in> S"
    and tl: "list_all2 (\<lambda>scope S. \<forall>x. captured scope = Some x \<longrightarrow> x \<in> S) scopes' Ss'"
    and len: "length pops \<le> length scopes'" and len': "length Ss' = length scopes'"
    by (auto dest: list_all2_lengthD)
  let ?rest = "run_device accepts (pop_phase pops) (fold (generateError accepts) es scopes')"
  have run: "run_device accepts (pop_phase (es # pops)) scopes
      = (Reported (captured scope) # fst ?rest, snd ?rest)"
    by (simp add: scopes pop_phase_Cons popErrorScope_def run_device_errors split: prod.splits)
  from Cons.IH [OF fold_generateError_bounded [OF tl, of accepts es]] len
  have ih: "length (fst ?rest) = length pops"
    "length (snd ?rest) = length scopes' - length pops"
    "\<forall>k < length pops. \<exists>r. fst ?rest ! k = Reported r
        \<and> (\<forall>x. r = Some x \<longrightarrow> x \<in> map (\<lambda>S. S \<union> set es) Ss' ! k \<union> set (concat (take k pops)))"
    by simp_all
  have "\<forall>k < length (es # pops). \<exists>r. (Reported (captured scope) # fst ?rest) ! k = Reported r
        \<and> (\<forall>x. r = Some x \<longrightarrow> x \<in> (S # Ss') ! k \<union> set (concat (take k (es # pops))))"
  proof (intro allI impI)
    fix k
    assume k: "k < length (es # pops)"
    show "\<exists>r. (Reported (captured scope) # fst ?rest) ! k = Reported r
        \<and> (\<forall>x. r = Some x \<longrightarrow> x \<in> (S # Ss') ! k \<union> set (concat (take k (es # pops))))"
    proof (cases k)
    case 0
    with hd show ?thesis by simp
  next
    case (Suc j)
    with k have j: "j < length pops" by simp
    with len len' have "map (\<lambda>S. S \<union> set es) Ss' ! j = Ss' ! j \<union> set es"
      by simp
    with ih(3) j Suc show ?thesis by auto
    qed
  qed
  with ih(1,2) show ?case
    unfolding run Ss by (simp add: scopes)
qed

text \<open>
  C6. Error scopes nest. Take \<open>N\<close> pushes, the \<open>j\<close>-th followed by the errors \<open>snd (pushes ! j)\<close>,
  then \<open>N\<close> pops, each followed by errors, on a device with no open scope (errors generated
  before the first push are \<open>before\<close>). The pop number \<open>k\<close> (counted from 0) reports at
  most one error, and an error it reports was generated after the push it matches, which
  is push number \<open>N - 1 - k\<close>, and before that pop. One more pop has no matching push and
  reports a protocol error.
\<close>

theorem error_scopes_nest_lifo:
  assumes "length pops = length pushes"
  shows "(\<forall>k < length pushes.
            \<exists>r. fst (run_device (accepts :: 'f \<Rightarrow> 'e \<Rightarrow> bool) (map GenerateError before @ push_phase pushes @ pop_phase pops) [])
                   ! k = Reported r
              \<and> (\<forall>e. r = Some e \<longrightarrow>
                     e \<in> set (concat (map snd (drop (length pushes - Suc k) pushes)))
                         \<union> set (concat (take k pops))))
     \<and> fst (run_device accepts
              (map GenerateError before @ push_phase pushes @ pop_phase pops @ [PopErrorScope]) [])
           ! length pushes = ProtocolError
     \<and> popErrorScope ([] :: ('f, 'e) error_scope list) = (ProtocolError, [])"
proof -
  let ?P = "\<lambda>scope S. \<forall>x. captured scope = Some x \<longrightarrow> x \<in> S"
  let ?scopes = "snd (run_device accepts (push_phase pushes) [])"
  let ?Ss = "map (\<lambda>i. set (concat (map snd (drop i pushes)))) (rev [0..<length pushes])"
  have start: "run_device accepts (map GenerateError before @ ops) [] = run_device accepts ops []"
    for ops
    by (induction before) simp_all
  have pushed: "run_device accepts (push_phase pushes @ ops) []
      = run_device accepts ops ?scopes" for ops
    by (simp add: run_device_append_proj push_phase_results)
  have bounded: "list_all2 ?P ?scopes ?Ss"
    using push_phase_bounded [of "[]" "[]" accepts pushes] by simp
  have len: "length pops \<le> length ?scopes"
    using assms by (simp add: push_phase_length)
  note popped = pop_phase_bounded [OF bounded len, of accepts]
  have nth: "?Ss ! k = set (concat (map snd (drop (length pushes - Suc k) pushes)))"
    if "k < length pushes" for k
    using that by (simp add: rev_nth)
  have first: "\<forall>k < length pushes.
            \<exists>r. fst (run_device accepts (map GenerateError before @ push_phase pushes @ pop_phase pops) [])
                   ! k = Reported r
              \<and> (\<forall>e. r = Some e \<longrightarrow>
                     e \<in> set (concat (map snd (drop (length pushes - Suc k) pushes)))
                         \<union> set (concat (take k pops)))"
  proof (intro allI impI)
    fix k
    assume k: "k < length pushes"
    with popped assms
    have "\<exists>r. fst (run_device accepts (pop_phase pops) ?scopes) ! k = Reported r
        \<and> (\<forall>x. r = Some x \<longrightarrow> x \<in> ?Ss ! k \<union> set (concat (take k pops)))"
      by metis
    then show "\<exists>r. fst (run_device accepts
                (map GenerateError before @ push_phase pushes @ pop_phase pops) []) ! k = Reported r
              \<and> (\<forall>e. r = Some e \<longrightarrow>
                     e \<in> set (concat (map snd (drop (length pushes - Suc k) pushes)))
                         \<union> set (concat (take k pops)))"
      unfolding nth [OF k] start pushed .
  qed
  have empty: "snd (run_device accepts (pop_phase pops) ?scopes) = []"
    using popped assms by (simp add: push_phase_length)
  have "fst (run_device accepts (pop_phase pops @ [PopErrorScope]) ?scopes)
      = fst (run_device accepts (pop_phase pops) ?scopes) @ [ProtocolError]"
    using empty by (simp add: run_device_append_proj popErrorScope_def)
  then have second: "fst (run_device accepts
              (map GenerateError before @ push_phase pushes @ pop_phase pops @ [PopErrorScope]) [])
           ! length pushes = ProtocolError"
    using popped assms by (simp add: start pushed nth_append)
  show ?thesis
    using first second by (simp add: popErrorScope_def)
qed

theorem error_scopes_nest_lifo_witness:
  "length [[4 :: nat], [5, 6], [7]] = length [((), [1 :: nat, 2]), ((), []), ((), [3])]
   \<and> 2 < length [((), [1 :: nat, 2]), ((), []), ((), [3])]
   \<and> fst (run_device (\<lambda>f e. True) (map GenerateError [0 :: nat] @ push_phase [((), [1 :: nat, 2]), ((), []), ((), [3])] @ pop_phase [[4 :: nat], [5, 6], [7]]) [])
       = [Reported (Some 3), Reported (Some 4), Reported (Some 1)]
   \<and> (\<exists>r. fst (run_device (\<lambda>f e. True)
                 (map GenerateError [0 :: nat] @ push_phase [((), [1 :: nat, 2]), ((), []), ((), [3])] @ pop_phase [[4 :: nat], [5, 6], [7]]) []) ! 2 = Reported r
          \<and> (\<forall>e. r = Some e \<longrightarrow>
                 e \<in> set (concat (map snd (drop (length [((), [1 :: nat, 2]), ((), []), ((), [3])] - Suc 2) [((), [1 :: nat, 2]), ((), []), ((), [3])])))
                     \<union> set (concat (take 2 [[4 :: nat], [5, 6], [7]]))))
   \<and> fst (run_device (\<lambda>f e. True)
            (map GenerateError [0 :: nat] @ push_phase [((), [1 :: nat, 2]), ((), []), ((), [3])] @ pop_phase [[4 :: nat], [5, 6], [7]] @ [PopErrorScope]) [])
         ! length [((), [1 :: nat, 2]), ((), []), ((), [3])]
       = ProtocolError"
proof -
  let ?pushes = "[((), [1 :: nat, 2]), ((), []), ((), [3])]"
  let ?pops = "[[4 :: nat], [5, 6], [7]]"
  have len: "length ?pops = length ?pushes"
    by simp
  have k: "2 < length ?pushes"
    by simp
  have run: "fst (run_device (\<lambda>f e. True)
            (map GenerateError [0 :: nat] @ push_phase ?pushes @ pop_phase ?pops) [])
       = [Reported (Some 3), Reported (Some 4), Reported (Some 1)]"
    by (simp add: push_phase_def pop_phase_def pushErrorScope_def popErrorScope_def)
  from error_scopes_nest_lifo [OF len, of "\<lambda>f e. True" "[0]"] k len run
  show ?thesis by blast
qed

subsection \<open>Completion handlers\<close>

lemma count_list_removeAll:
  "count_list (removeAll x xs) y = (if x = y then 0 else count_list xs y)"
  by (induction xs) auto

lemma count_list_distinct: "distinct xs \<Longrightarrow> count_list xs x = (if x \<in> set xs then 1 else 0)"
  by (induction xs) auto

lemma supplied_append: "supplied (es @ es') = supplied es @ supplied es'"
  by (induction es rule: supplied.induct) auto

lemma account_Begin:
  "times_invoked h (async_step (Begin operation resolves h') s)
     + count_list (in_flight (async_step (Begin operation resolves h') s)) h
   = times_invoked h s + count_list (in_flight s) h + (if h' = h then 1 else 0)"
  by (simp add: times_invoked_def invoke_def)

lemma account_Teardown:
  "times_invoked h (async_step Teardown s) + count_list (in_flight (async_step Teardown s)) h
   = times_invoked h s + count_list (in_flight s) h"
  by (simp add: times_invoked_def comp_def)

lemma account_WorkCompleted:
  assumes "count_list (in_flight s) h' \<le> 1"
  shows "times_invoked h (async_step (WorkCompleted h') s)
           + count_list (in_flight (async_step (WorkCompleted h') s)) h
         = times_invoked h s + count_list (in_flight s) h"
proof (cases "h' \<in> set (in_flight s)")
  case True
  then have "count_list (in_flight s) h' \<noteq> 0"
    by (simp add: count_list_0_iff)
  with assms have "count_list (in_flight s) h' = 1" by simp
  with True show ?thesis
    by (auto simp: times_invoked_def invoke_def count_list_removeAll)
next
  case False
  then show ?thesis by simp
qed

lemma async_step_account:
  assumes "\<forall>h. times_invoked h s + count_list (in_flight s) h = count_list hs h"
    and "distinct (hs @ supplied [e])"
  shows "\<forall>h. times_invoked h (async_step e s) + count_list (in_flight (async_step e s)) h
              = count_list (hs @ supplied [e]) h"
proof (cases e)
  case (Begin operation resolves h')
  with assms(1) show ?thesis
    by (simp only: account_Begin supplied.simps count_list_append count_list.simps) simp
next
  case (WorkCompleted h')
  have "count_list hs h' \<le> 1"
    using assms(2) by (simp add: count_list_distinct)
  with assms(1) have "count_list (in_flight s) h' \<le> 1"
    by (metis le_add2 le_trans)
  from account_WorkCompleted [OF this] assms(1) WorkCompleted show ?thesis
    by simp
next
  case Teardown
  with assms(1) show ?thesis
    by (simp add: account_Teardown del: async_step.simps)
qed

lemma run_async_account:
  assumes "\<forall>h. times_invoked h s + count_list (in_flight s) h = count_list hs h"
    and "distinct (hs @ supplied events)"
  shows "\<forall>h. times_invoked h (run_async events s) + count_list (in_flight (run_async events s)) h
              = count_list (hs @ supplied events) h"
  using assms
proof (induction events arbitrary: s hs)
  case Nil
  then show ?case by (simp add: run_async_def)
next
  case (Cons e events)
  have split: "supplied (e # events) = supplied [e] @ supplied events"
    using supplied_append [of "[e]" events] by simp
  from Cons.prems(2) have d1: "distinct (hs @ supplied [e])"
    and d2: "distinct ((hs @ supplied [e]) @ supplied events)"
    by (auto simp: split)
  from Cons.IH [OF async_step_account [OF Cons.prems(1) d1] d2]
  show ?case
    by (simp add: run_async_def split)
qed

lemma run_async_append: "run_async (es @ es') s = run_async es' (run_async es s)"
  by (simp add: run_async_def)

text \<open>
  C7. Exactly-once completion. Let every operation of a sequence of events supply its own
  handler, and let \<open>h\<close> be one of them. At the end of the sequence \<open>h\<close> has been called once,
  or not yet while its work is in flight, and never more. After teardown nothing is in
  flight and \<open>h\<close> has been called exactly once; a handler that was in flight at teardown was
  called with failure.
\<close>

theorem completion_exactly_once:
  assumes "distinct (supplied events)" and "h \<in> set (supplied events)"
  shows "times_invoked h (run_async events initial_async)
           = (if h \<in> set (in_flight (run_async events initial_async)) then 0 else 1)
     \<and> in_flight (run_async (events @ [Teardown]) initial_async) = []
     \<and> times_invoked h (run_async (events @ [Teardown]) initial_async) = 1
     \<and> (h \<in> set (in_flight (run_async events initial_async)) \<longrightarrow>
          (h, Failed) \<in> set (invocations (run_async (events @ [Teardown]) initial_async)))"
proof -
  let ?s = "run_async events initial_async"
  have init: "\<forall>h. times_invoked h initial_async + count_list (in_flight initial_async) h
      = count_list [] h"
    by (simp add: times_invoked_def initial_async_def)
  from run_async_account [OF init] assms(1)
  have "times_invoked h ?s + count_list (in_flight ?s) h = count_list (supplied events) h"
    by simp
  with assms have account: "times_invoked h ?s + count_list (in_flight ?s) h = 1"
    by (simp add: count_list_distinct)
  have one: "times_invoked h ?s = (if h \<in> set (in_flight ?s) then 0 else 1)"
  proof (cases "h \<in> set (in_flight ?s)")
    case True
    then have "count_list (in_flight ?s) h \<noteq> 0"
      by (simp add: count_list_0_iff)
    with account True show ?thesis by simp
  next
    case False
    with account show ?thesis by simp
  qed
  have td: "times_invoked h (async_step Teardown ?s) = 1"
    using account_Teardown [of h ?s] account by simp
  show ?thesis
    using one td by (simp add: run_async_append run_async_def)
qed

theorem completion_exactly_once_witness:
  "distinct (supplied [Begin CreateComputePipelineAsync True 1,
        Begin CreateRenderPipelineAsync False 2, Begin PopErrorScopeAsync False 3, WorkCompleted 1])
   \<and> 3 \<in> set (supplied [Begin CreateComputePipelineAsync True 1,
        Begin CreateRenderPipelineAsync False 2, Begin PopErrorScopeAsync False 3, WorkCompleted 1])
   \<and> in_flight (run_async [Begin CreateComputePipelineAsync True 1,
        Begin CreateRenderPipelineAsync False 2, Begin PopErrorScopeAsync False 3, WorkCompleted 1]
        initial_async) = [3]
   \<and> times_invoked 3 (run_async [Begin CreateComputePipelineAsync True 1,
        Begin CreateRenderPipelineAsync False 2, Begin PopErrorScopeAsync False 3, WorkCompleted 1]
        initial_async) = 0
   \<and> times_invoked 3 (run_async ([Begin CreateComputePipelineAsync True 1,
        Begin CreateRenderPipelineAsync False 2, Begin PopErrorScopeAsync False 3, WorkCompleted 1]
        @ [Teardown]) initial_async) = 1
   \<and> (3, Failed) \<in> set (invocations (run_async ([Begin CreateComputePipelineAsync True 1,
        Begin CreateRenderPipelineAsync False 2, Begin PopErrorScopeAsync False 3, WorkCompleted 1]
        @ [Teardown]) initial_async))"
proof -
  let ?events = "[Begin CreateComputePipelineAsync True 1,
        Begin CreateRenderPipelineAsync False 2, Begin PopErrorScopeAsync False 3, WorkCompleted 1]"
  have a: "distinct (supplied ?events)" by simp
  have b: "3 \<in> set (supplied ?events)" by simp
  have c: "in_flight (run_async ?events initial_async) = [3]"
    by (simp add: run_async_def initial_async_def invoke_def)
  from completion_exactly_once [OF a b] a b c show ?thesis by simp
qed

end
